theory Spec2Isabelle
  imports Main "HOL-Library.Sublist"
begin

section \<open>CQ codes: escaping, tag values, tokenizer and parser (src/src/tags.ts)\<close>

text \<open>
  A JavaScript string is modelled as a \<^typ>\<open>string\<close>, one \<^typ>\<open>char\<close> per code unit.
  Every delimiter the code looks for (\<open>&\<close>, \<open>[\<close>, \<open>]\<close>, \<open>,\<close>, \<open>=\<close>, \<open>[CQ:\<close>,
  the letters \<open>a\<close> to \<open>z\<close>) is a single code unit, and the code only ever compares
  code units with these, so nothing below depends on the width of a code unit.
\<close>

subsection \<open>Escaper\<close>

text \<open>
  \<open>str.replace(/lit/g, rep)\<close> for a literal, non-empty pattern and a replacement
  without \<open>$\<close>: scan from the left, replace every match, continue after the match.
\<close>

function replaceAll :: "string \<Rightarrow> string \<Rightarrow> string \<Rightarrow> string" where
  "replaceAll pat rep [] = []"
| "replaceAll pat rep (c # cs) =
     (if pat \<noteq> [] \<and> prefix pat (c # cs)
      then rep @ replaceAll pat rep (drop (length pat) (c # cs))
      else c # replaceAll pat rep cs)"
  by pat_completeness auto
termination
  by (relation "measure (\<lambda>(pat, rep, s). length s)") (auto simp: neq_Nil_conv)

text \<open>\<open>CQ.escape(str, insideCQ = false)\<close>, lines 121 to 130.\<close>

definition escape :: "string \<Rightarrow> bool \<Rightarrow> string" where
  "escape str insideCQ =
     (let temp = replaceAll '']'' ''&#93;''
                   (replaceAll ''['' ''&#91;''
                     (replaceAll ''&'' ''&amp;'' str))
      in if insideCQ then replaceAll '','' ''&#44;'' temp else temp)"

text \<open>\<open>CQ.unescape(str)\<close>, lines 137 to 142.\<close>

definition unescape :: "string \<Rightarrow> string" where
  "unescape str =
     replaceAll ''&amp;'' ''&''
       (replaceAll ''&#93;'' '']''
         (replaceAll ''&#91;'' ''[''
           (replaceAll ''&#44;'' '','' str)))"

text \<open>\<open>s.includes(pat)\<close>: the literal \<open>pat\<close> occurs somewhere in \<open>s\<close>.\<close>

fun contains :: "string \<Rightarrow> string \<Rightarrow> bool" where
  "contains [] pat = (pat = [])"
| "contains (c # cs) pat = (prefix pat (c # cs) \<or> contains cs pat)"

text \<open>
  The image of one character under \<open>escape\<close>; the three flags say which of the comma,
  opening-bracket and closing-bracket entities are (still) in use. It describes the
  intermediate strings of \<open>unescape\<close>, which resolves the entities one kind at a time.
\<close>

definition entity :: "bool \<Rightarrow> bool \<Rightarrow> bool \<Rightarrow> char \<Rightarrow> string" where
  "entity comma lb rb c =
     (if c = CHR ''&'' then ''&amp;''
      else if lb \<and> c = CHR ''['' then ''&#91;''
      else if rb \<and> c = CHR '']'' then ''&#93;''
      else if comma \<and> c = CHR '','' then ''&#44;''
      else [c])"

subsection \<open>JavaScript values and objects\<close>

text \<open>
  Attribute values are the primitive values of the language; nested values (arrays of
  tags, as in the \<open>content\<close> of a \<open>node\<close>) are left out. \<open>Undefined\<close> is the "absent"
  sentinel of the specification, \<open>Null\<close> its "null". The code never computes with a
  number, it only writes it into a string: \<open>Num s\<close> is the number that the language
  writes as \<open>s\<close> (\<open>1\<close>, \<open>0.5\<close>, \<open>1e+21\<close>, \<open>NaN\<close>, ...).
\<close>

datatype jsval = Undefined | Null | Bool bool | Num string | Str string

text \<open>The decimal numeral of a natural number, as in the keys \<open>0\<close>, \<open>1\<close>, ... of a string.\<close>

definition digit_char :: "int \<Rightarrow> char" where
  "digit_char d = ''0123456789'' ! nat d"

function decimal :: "int \<Rightarrow> string" where
  "decimal n =
     (if n < 10 then [digit_char n] else decimal (n div 10) @ [digit_char (n mod 10)])"
  by pat_completeness auto
termination
  by (relation "measure nat") auto

declare decimal.simps [simp del]

text \<open>The string a template literal \<open>`${v}`\<close> puts in place of \<open>v\<close>.\<close>

fun ToString :: "jsval \<Rightarrow> string" where
  "ToString Undefined = ''undefined''"
| "ToString Null = ''null''"
| "ToString (Bool b) = (if b then ''true'' else ''false'')"
| "ToString (Num s) = s"
| "ToString (Str s) = s"

text \<open>
  An object (the \<open>Data\<close> interface) is the list of its own properties in the order in
  which \<open>Object.entries\<close> and \<open>Object.assign\<close> visit them. The language fixes that
  order: first the keys that are array indices (canonical decimal numerals below
  \<open>2^32 - 1\<close>) in ascending numeric order, then all other keys in the order of their
  creation.
\<close>

type_synonym obj = "(string \<times> jsval) list"

definition is_digit :: "char \<Rightarrow> bool" where
  "is_digit c = (48 \<le> (of_char c :: int) \<and> (of_char c :: int) \<le> 57)"

definition dec_val :: "string \<Rightarrow> int" where
  "dec_val k = foldl (\<lambda>n c. 10 * n + (of_char c - 48)) 0 k"

definition array_index :: "string \<Rightarrow> int option" where
  "array_index k =
     (if k \<noteq> [] \<and> list_all is_digit k \<and> (k = ''0'' \<or> hd k \<noteq> CHR ''0'')
         \<and> dec_val k < 4294967295
      then Some (dec_val k) else None)"

fun insert_index :: "int \<Rightarrow> string \<Rightarrow> jsval \<Rightarrow> obj \<Rightarrow> obj" where
  "insert_index i k v [] = [(k, v)]"
| "insert_index i k v ((k', v') # ps) =
     (case array_index k' of
        Some j \<Rightarrow> if j < i then (k', v') # insert_index i k v ps else (k, v) # (k', v') # ps
      | None \<Rightarrow> (k, v) # (k', v') # ps)"

definition has_own :: "obj \<Rightarrow> string \<Rightarrow> bool" where
  "has_own ob k = (k \<in> set (map fst ob))"

text \<open>
  Defining the own data property \<open>k\<close>: an existing property keeps its place and takes
  the new value, a new one goes to its place in the order above.
\<close>

definition CreateDataProperty :: "obj \<Rightarrow> string \<Rightarrow> jsval \<Rightarrow> obj" where
  "CreateDataProperty ob k v =
     (if has_own ob k then map (\<lambda>(k', v'). if k' = k then (k', v) else (k', v')) ob
      else case array_index k of
             Some i \<Rightarrow> insert_index i k v ob
           | None \<Rightarrow> ob @ [(k, v)])"

text \<open>\<open>Object.fromEntries(pairs)\<close> defines the pairs' properties one after the other.\<close>

definition Object_fromEntries :: "(string \<times> jsval) list \<Rightarrow> obj" where
  "Object_fromEntries es = foldl (\<lambda>ob (k, v). CreateDataProperty ob k v) [] es"

text \<open>
  \<open>Object.assign\<close> does not define the properties of its target, it assigns them. The
  two differ at the key \<open>__proto__\<close>: as long as the target inherits from
  \<open>Object.prototype\<close> and has no own property of that name, the assignment runs the
  inherited setter, which creates no property; it sets the prototype to \<open>null\<close> when the
  value is \<open>null\<close> and ignores every other primitive value. The flag beside the
  properties says that the prototype of the target has become \<open>null\<close>.
\<close>

fun Set_prop :: "obj \<times> bool \<Rightarrow> string \<Rightarrow> jsval \<Rightarrow> obj \<times> bool" where
  "Set_prop (ob, proto_null) k v =
     (if k = ''__proto__'' \<and> \<not> has_own ob k \<and> \<not> proto_null
      then (ob, v = Null)
      else (CreateDataProperty ob k v, proto_null))"

text \<open>
  \<open>Object.assign({}, source1, ..., sourceN)\<close>: the properties of the new object after
  every property of every source, in order, has been assigned to it.
\<close>

definition Object_assign_new :: "obj list \<Rightarrow> obj" where
  "Object_assign_new sources =
     fst (foldl (\<lambda>to from. foldl (\<lambda>to (k, v). Set_prop to k v) to from) ([], False) sources)"

text \<open>\<open>delete ob[k]\<close> and the property read \<open>ob[k]\<close>.\<close>

definition delete_prop :: "obj \<Rightarrow> string \<Rightarrow> obj" where
  "delete_prop ob k = filter (\<lambda>(k', v'). k' \<noteq> k) ob"

definition get_prop :: "obj \<Rightarrow> string \<Rightarrow> jsval" where
  "get_prop ob k = (case map_of ob k of Some v \<Rightarrow> v | None \<Rightarrow> Undefined)"

text \<open>\<open>v == null\<close> holds of \<open>null\<close> and of \<open>undefined\<close>, and of no other primitive value.\<close>

definition loose_eq_null :: "jsval \<Rightarrow> bool" where
  "loose_eq_null v = (v = Null \<or> v = Undefined)"

subsection \<open>The store\<close>

text \<open>
  Objects are shared by reference: a tag holds references to its \<open>_data\<close> and its
  \<open>_modifier\<close>, and \<open>toTag\<close> hands out a reference to the object it has built. The
  store is the list of all objects allocated so far; an address is a position in it.
\<close>

type_synonym addr = nat
type_synonym heap = "obj list"

definition alloc :: "heap \<Rightarrow> obj \<Rightarrow> addr \<times> heap" where
  "alloc h ob = (length h, h @ [ob])"

subsection \<open>Tag values (class \<open>CQTag\<close>, lines 10 to 80; class \<open>CQText\<close>, lines 82 to 90)\<close>

text \<open>
  An instance has the three fields \<open>_type\<close>, \<open>_data\<close> and \<open>_modifier\<close> and its class,
  which decides which \<open>toString\<close> a call reaches. The constructor (lines 15 to 30) also
  registers on the instance, for every key of \<open>data\<close>, an accessor of that name, with
  the getter \<open>() => this._data[key]\<close> and no setter. An accessor replaces a field of the
  same name and hides a method or getter of the class of the same name, so the record
  keeps the names of the accessors, and every read of a member goes through them. The
  code never changes the object \<open>data\<close>, so the getter of a key finds the key there.
\<close>

datatype tag_class = ClassCQTag | ClassCQText

record cqtag =
  tag_class :: tag_class
  tag_type :: string
  tag_data :: addr
  tag_modifier :: addr
  tag_accessors :: "string list"

text \<open>The exceptions that a read or a call can raise.\<close>

datatype error = RangeError | TypeError

text \<open>What a read of \<open>this._modifier\<close> gives: a reference to an object, or a primitive value.\<close>

datatype field_value = Ref addr | Prim jsval

text \<open>The type \<open>Tag<T>\<close> of lines 5 to 8; its \<open>type\<close> is whatever \<open>this.tagName\<close> gives.\<close>

record tag_struct =
  struct_type :: jsval
  struct_data :: addr

definition has_accessor :: "cqtag \<Rightarrow> string \<Rightarrow> bool" where
  "has_accessor this name = (name \<in> set (tag_accessors this))"

text \<open>
  \<open>new CQTag(type, data)\<close>: the three assignments, then the accessors for the keys that
  \<open>Object.entries(this._data)\<close> lists. Defining them cannot fail: the fields are
  configurable.
\<close>

definition new_CQTag :: "heap \<Rightarrow> string \<Rightarrow> addr \<Rightarrow> cqtag \<times> heap" where
  "new_CQTag h type data =
     (let (m, h1) = alloc h []
      in (\<lparr>tag_class = ClassCQTag, tag_type = type, tag_data = data, tag_modifier = m,
           tag_accessors = map fst (h1 ! data)\<rparr>, h1))"

definition new_CQText :: "heap \<Rightarrow> string \<Rightarrow> cqtag \<times> heap" where
  "new_CQText h text =
     (let (d, h1) = alloc h (Object_fromEntries [(''text'', Str text)]);
          (this, h2) = new_CQTag h1 ''text'' d
      in (this\<lparr>tag_class := ClassCQText\<rparr>, h2))"

text \<open>
  The read \<open>this._data\<close>. With an accessor \<open>_data\<close> the getter \<open>() => this._data["_data"]\<close>
  reads \<open>this._data\<close> again, without end: the call stack overflows.
\<close>

definition read_data :: "cqtag \<Rightarrow> error + addr" where
  "read_data this = (if has_accessor this ''_data'' then Inl RangeError else Inr (tag_data this))"

text \<open>The getter of the accessor \<open>key\<close>: \<open>this._data[key]\<close>.\<close>

definition accessor_get :: "heap \<Rightarrow> cqtag \<Rightarrow> string \<Rightarrow> error + jsval" where
  "accessor_get h this key =
     (case read_data this of Inl e \<Rightarrow> Inl e | Inr d \<Rightarrow> Inr (get_prop (h ! d) key))"

text \<open>The reads \<open>this._type\<close>, \<open>this._modifier\<close> and \<open>this.tagName\<close> (the getter of lines 32 to 34).\<close>

definition read_type :: "heap \<Rightarrow> cqtag \<Rightarrow> error + jsval" where
  "read_type h this =
     (if has_accessor this ''_type'' then accessor_get h this ''_type''
      else Inr (Str (tag_type this)))"

definition read_modifier :: "heap \<Rightarrow> cqtag \<Rightarrow> error + field_value" where
  "read_modifier h this =
     (if has_accessor this ''_modifier''
      then (case accessor_get h this ''_modifier'' of Inl e \<Rightarrow> Inl e | Inr v \<Rightarrow> Inr (Prim v))
      else Inr (Ref (tag_modifier this)))"

definition read_tagName :: "heap \<Rightarrow> cqtag \<Rightarrow> error + jsval" where
  "read_tagName h this =
     (if has_accessor this ''tagName'' then accessor_get h this ''tagName''
      else read_type h this)"

text \<open>
  The own enumerable properties that \<open>Object.assign\<close> copies from a source: those of the
  object, the characters of a string under the keys \<open>0\<close>, \<open>1\<close>, ..., and none of any
  other primitive value.
\<close>

definition source_props :: "heap \<Rightarrow> field_value \<Rightarrow> obj" where
  "source_props h src =
     (case src of
        Ref a \<Rightarrow> h ! a
      | Prim (Str s) \<Rightarrow> map (\<lambda>i. (decimal (int i), Str [s ! i])) [0..<length s]
      | Prim v \<Rightarrow> [])"

text \<open>
  The call \<open>tag.name()\<close> of a method of the class: an accessor of that name hides the
  method, its getter gives a primitive value, and calling that is a type error.
\<close>

definition call_method :: "heap \<Rightarrow> cqtag \<Rightarrow> string \<Rightarrow> error + 'a \<Rightarrow> error + 'a" where
  "call_method h this name body =
     (if has_accessor this name
      then (case accessor_get h this name of Inl e \<Rightarrow> Inl e | Inr v \<Rightarrow> Inl TypeError)
      else body)"

text \<open>
  \<open>CQTag.toString\<close>, lines 49 to 60. The methods return an exception, or their result and
  the store they leave; they assign to no field of \<open>this\<close>, so they return no new
  receiver.
\<close>

definition CQTag_toString :: "heap \<Rightarrow> cqtag \<Rightarrow> error + string \<times> heap" where
  "CQTag_toString h this =
     (case read_type h this of
        Inl e \<Rightarrow> Inl e
      | Inr type \<Rightarrow>
     (case read_data this of
        Inl e \<Rightarrow> Inl e
      | Inr d \<Rightarrow>
     (case read_modifier h this of
        Inl e \<Rightarrow> Inl e
      | Inr m \<Rightarrow>
          (let ret = ''[CQ:'' @ ToString type;
               (a, h1) = alloc h (Object_assign_new [h ! d, source_props h m]);
               ret = foldl (\<lambda>ret (k, v).
                              if v \<noteq> Undefined then ret @ '','' @ k @ ''='' @ ToString v else ret)
                       ret (h1 ! a);
               ret = ret @ '']''
           in Inr (ret, h1)))))"

text \<open>\<open>CQText.toString\<close>, lines 87 to 89; the field \<open>text\<close> is declared a string.\<close>

definition CQText_toString :: "heap \<Rightarrow> cqtag \<Rightarrow> error + string \<times> heap" where
  "CQText_toString h this =
     (case read_data this of
        Inl e \<Rightarrow> Inl e
      | Inr d \<Rightarrow> Inr (ToString (get_prop (h ! d) ''text''), h))"

text \<open>The call \<open>tag.toString()\<close>: the method of the class of the receiver.\<close>

definition toString :: "heap \<Rightarrow> cqtag \<Rightarrow> error + string \<times> heap" where
  "toString h this =
     call_method h this ''toString''
       (case tag_class this of
          ClassCQText \<Rightarrow> CQText_toString h this
        | ClassCQTag \<Rightarrow> CQTag_toString h this)"

text \<open>
  \<open>CQTag.modifier\<close>, lines 62 to 65, the one method that assigns to a field, and the call
  \<open>tag.modifier(m)\<close>. The code is strict, so the assignment to an accessor without a
  setter is a type error.
\<close>

definition CQTag_modifier :: "cqtag \<Rightarrow> addr \<Rightarrow> error + cqtag" where
  "CQTag_modifier this m =
     (if has_accessor this ''_modifier'' then Inl TypeError
      else Inr (this\<lparr>tag_modifier := m\<rparr>))"

definition modifier :: "heap \<Rightarrow> cqtag \<Rightarrow> addr \<Rightarrow> error + cqtag" where
  "modifier h this m = call_method h this ''modifier'' (CQTag_modifier this m)"

text \<open>
  \<open>CQTag.toTag\<close>, lines 68 to 79, and the call \<open>tag.toTag()\<close>: the loop runs over the
  entries the copy had before the loop and deletes from the copy, at its address in the
  store.
\<close>

definition CQTag_toTag :: "heap \<Rightarrow> cqtag \<Rightarrow> error + tag_struct \<times> heap" where
  "CQTag_toTag h this =
     (case read_data this of
        Inl e \<Rightarrow> Inl e
      | Inr d \<Rightarrow>
     (case read_modifier h this of
        Inl e \<Rightarrow> Inl e
      | Inr m \<Rightarrow>
          (let (data, h1) = alloc h (Object_assign_new [h ! d, source_props h m]);
               h2 = foldl (\<lambda>h (k, v).
                             if loose_eq_null v then h[data := delete_prop (h ! data) k] else h)
                      h1 (h1 ! data)
           in (case read_tagName h2 this of
                 Inl e \<Rightarrow> Inl e
               | Inr type \<Rightarrow> Inr (\<lparr>struct_type = type, struct_data = data\<rparr>, h2)))))"

definition toTag :: "heap \<Rightarrow> cqtag \<Rightarrow> error + tag_struct \<times> heap" where
  "toTag h this = call_method h this ''toTag'' (CQTag_toTag h this)"

subsection \<open>Tokenizer (\<open>SPLIT\<close>, line 92)\<close>

text \<open>
  \<open>SPLIT\<close> is \<open>/(?=\[CQ:)|(?<=])/\<close>: it matches the empty string at position \<open>q\<close> when
  \<open>[CQ:\<close> starts there or when the character before is \<open>]\<close>.
\<close>

definition SPLIT_at :: "string \<Rightarrow> nat \<Rightarrow> bool" where
  "SPLIT_at s q =
     (prefix ''[CQ:'' (drop q s) \<or> (0 < q \<and> q \<le> length s \<and> s ! (q - 1) = CHR '']''))"

text \<open>
  \<open>msg.split(SPLIT)\<close>, the loop of the language's definition of splitting at a regular
  expression: \<open>p\<close> is where the current piece starts, \<open>q\<close> the position under test. A match
  at \<open>q\<close> ends where it starts, so it closes the piece \<open>p..q\<close> unless that piece is
  empty; the rest of the string after the last match is the last piece.
\<close>

function split_loop :: "string \<Rightarrow> nat \<Rightarrow> nat \<Rightarrow> string list" where
  "split_loop s p q =
     (if q < length s then
        (if SPLIT_at s q then
           (if q = p then split_loop s p (q + 1)
            else take (q - p) (drop p s) # split_loop s q q)
         else split_loop s p (q + 1))
      else [drop p s])"
  by pat_completeness auto
termination
  by (relation "measure (\<lambda>(s, p, q). 2 * (length s - q) + (if q = p then 0 else 1))") auto

declare split_loop.simps [simp del]

text \<open>The empty string is a case of its own: no piece if the expression matches it, else one.\<close>

definition split_SPLIT :: "string \<Rightarrow> string list" where
  "split_SPLIT s = (if s = [] then (if SPLIT_at s 0 then [] else [s]) else split_loop s 0 0)"

text \<open>The positions in the message at which the pieces start, the first piece at \<open>off\<close>.\<close>

fun token_starts :: "nat \<Rightarrow> string list \<Rightarrow> nat list" where
  "token_starts off [] = []"
| "token_starts off (t # ts) = off # token_starts (off + length t) ts"

subsection \<open>Tag-token parser (\<open>CQ_TAG_REGEXP\<close>, line 93) and message parser (\<open>CQ.parse\<close>)\<close>

definition is_lower :: "char \<Rightarrow> bool" where
  "is_lower c = (97 \<le> (of_char c :: nat) \<and> (of_char c :: nat) \<le> 122)"

fun strip_prefix :: "string \<Rightarrow> string \<Rightarrow> string option" where
  "strip_prefix [] s = Some s"
| "strip_prefix (p # ps) [] = None"
| "strip_prefix (p # ps) (c # cs) = (if p = c then strip_prefix ps cs else None)"

text \<open>
  \<open>CQ_TAG_REGEXP.exec(s)\<close> for \<open>/^\[CQ:([a-z]+)(?:,([^\]]+))?]$/\<close>: \<open>None\<close> for \<open>null\<close>,
  else the two groups, the second \<open>None\<close> when it is \<open>undefined\<close>. The letters are
  followed by \<open>,\<close> or \<open>]\<close>, neither a letter, so the first group is the longest run of
  letters; the second group stops at the first \<open>]\<close>, which must be the last character.
\<close>

definition CQ_TAG_REGEXP_exec :: "string \<Rightarrow> (string \<times> string option) option" where
  "CQ_TAG_REGEXP_exec s =
     (case strip_prefix ''[CQ:'' s of
        None \<Rightarrow> None
      | Some r \<Rightarrow>
          let name = takeWhile is_lower r; rest = dropWhile is_lower r
          in if name = [] then None
             else if rest = '']'' then Some (name, None)
             else (case rest of
                     [] \<Rightarrow> None
                   | c # r2 \<Rightarrow>
                       if c = CHR '','' then
                         (let v = takeWhile (\<lambda>x. x \<noteq> CHR '']'') r2;
                              r3 = dropWhile (\<lambda>x. x \<noteq> CHR '']'') r2
                          in if v \<noteq> [] \<and> r3 = '']'' then Some (name, Some v) else None)
                       else None))"

text \<open>
  The same pattern read as a grammar: \<open>s\<close> is \<open>[CQ:\<close>, a non-empty word of lower-case
  letters, optionally a comma and a non-empty text without \<open>]\<close>, and \<open>]\<close>.
\<close>

definition tag_shape :: "string \<Rightarrow> string \<Rightarrow> string option \<Rightarrow> bool" where
  "tag_shape s name value =
     (name \<noteq> [] \<and> list_all is_lower name \<and>
      (case value of
         None \<Rightarrow> s = ''[CQ:'' @ name @ '']''
       | Some v \<Rightarrow> v \<noteq> [] \<and> CHR '']'' \<notin> set v \<and> s = ''[CQ:'' @ name @ '','' @ v @ '']''))"

definition matches_tag_grammar :: "string \<Rightarrow> bool" where
  "matches_tag_grammar s = (\<exists>name value. tag_shape s name value)"

text \<open>\<open>value.split(",")\<close>: the pieces between the separators, empty pieces included.\<close>

fun split_str :: "string \<Rightarrow> char \<Rightarrow> string list" where
  "split_str [] sep = [[]]"
| "split_str (c # cs) sep =
     (if c = sep then [] # split_str cs sep
      else (case split_str cs sep of p # ps \<Rightarrow> (c # p) # ps | [] \<Rightarrow> [[c]]))"

text \<open>\<open>v.indexOf(c)\<close>, \<open>- 1\<close> when \<open>c\<close> does not occur.\<close>

fun indexOf :: "string \<Rightarrow> char \<Rightarrow> int" where
  "indexOf [] c = - 1"
| "indexOf (x # xs) c =
     (if x = c then 0 else (let i = indexOf xs c in if i < 0 then - 1 else i + 1))"

text \<open>
  \<open>s.substr(start, length)\<close>: a negative \<open>start\<close> counts from the end, \<open>length\<close> is
  clamped to \<open>0..size\<close> and is \<open>size\<close> when left out (\<open>None\<close>).
\<close>

definition substr :: "string \<Rightarrow> int \<Rightarrow> int option \<Rightarrow> string" where
  "substr s start len =
     (let size = int (length s);
          intStart = (if start < 0 then max (size + start) 0 else min start size);
          intLength = (case len of None \<Rightarrow> size | Some l \<Rightarrow> min (max l 0) size);
          intEnd = min (intStart + intLength) size
      in take (nat (intEnd - intStart)) (drop (nat intStart) s))"

text \<open>The callback of lines 108 to 111: the key and value of one piece.\<close>

definition attribute :: "string \<Rightarrow> string \<times> jsval" where
  "attribute v =
     (let index = indexOf v CHR ''=''
      in (substr v 0 (Some index), Str (substr v (index + 1) None)))"

text \<open>The callback of lines 98 to 113: the tag value of one token.\<close>

definition parseToken :: "heap \<Rightarrow> string \<Rightarrow> cqtag \<times> heap" where
  "parseToken h tagStr =
     (case CQ_TAG_REGEXP_exec tagStr of
        None \<Rightarrow> new_CQText h tagStr
      | Some (tagName, value) \<Rightarrow>
          (case value of
             None \<Rightarrow> (let (d, h1) = alloc h [] in new_CQTag h1 tagName d)
           | Some value \<Rightarrow>
               (let (data, h1) =
                      alloc h (Object_fromEntries (map attribute (split_str value CHR '','')))
                in new_CQTag h1 tagName data)))"

text \<open>\<open>tokens.map(callback)\<close>, the store passed from one call to the next.\<close>

fun map_heap :: "(heap \<Rightarrow> 'a \<Rightarrow> 'b \<times> heap) \<Rightarrow> heap \<Rightarrow> 'a list \<Rightarrow> 'b list \<times> heap" where
  "map_heap f h [] = ([], h)"
| "map_heap f h (x # xs) =
     (let (y, h1) = f h x; (ys, h2) = map_heap f h1 xs in (y # ys, h2))"

definition parse :: "heap \<Rightarrow> string \<Rightarrow> cqtag list \<times> heap" where
  "parse h msg = map_heap parseToken h (split_SPLIT msg)"

subsection \<open>Descriptions used in the statements\<close>

text \<open>
  What the caller of a method gets, the result or the exception, and the store after the
  call, which is the store before it when the call raises an exception.
\<close>

definition outcome :: "error + 'a \<times> heap \<Rightarrow> error + 'a" where
  "outcome r = (case r of Inl e \<Rightarrow> Inl e | Inr (x, h') \<Rightarrow> Inr x)"

definition store_after :: "heap \<Rightarrow> error + 'a \<times> heap \<Rightarrow> heap" where
  "store_after h r = (case r of Inl e \<Rightarrow> h | Inr (x, h') \<Rightarrow> h')"

text \<open>The structured form with the content of its data object in place of the reference.\<close>

definition structured :: "error + tag_struct \<times> heap \<Rightarrow> error + jsval \<times> obj" where
  "structured r =
     (case r of Inl e \<Rightarrow> Inl e | Inr (t, h') \<Rightarrow> Inr (struct_type t, h' ! struct_data t))"

text \<open>
  The names of the members of an instance, and the tag values none of whose accessors has
  such a name.
\<close>

definition member_names :: "string list" where
  "member_names =
     [''_type'', ''_data'', ''_modifier'', ''tagName'', ''get'', ''toJSON'', ''toString'',
      ''modifier'', ''toTag'']"

definition no_member_accessor :: "cqtag \<Rightarrow> bool" where
  "no_member_accessor this = list_all (\<lambda>k. k \<notin> set member_names) (tag_accessors this)"

text \<open>
  The overlaid mapping of both serialisations, \<open>Object.assign({}, this._data,
  this._modifier)\<close>, when the two reads give the fields.
\<close>

definition overlaid :: "heap \<Rightarrow> cqtag \<Rightarrow> obj" where
  "overlaid h this = Object_assign_new [h ! tag_data this, h ! tag_modifier this]"

text \<open>The pairs \<open>,key=value\<close> of a mapping, one after the other.\<close>

definition render :: "obj \<Rightarrow> string" where
  "render ob = concat (map (\<lambda>(k, v). '','' @ k @ ''='' @ ToString v) ob)"






text \<open>The keys that the loop of \<open>toTag\<close> deletes.\<close>

definition null_keys :: "obj \<Rightarrow> string set" where
  "null_keys es = {k. \<exists>v. (k, v) \<in> set es \<and> loose_eq_null v}"

text \<open>
  What the callback of \<open>CQ.parse\<close> builds for one token: the class, the type and the base
  mapping of the tag value; the tag values of a list of tokens, each with two new objects
  in the store (its \<open>_data\<close> and its \<open>_modifier\<close>), the first at address \<open>a\<close>.
\<close>

definition token_class :: "string \<Rightarrow> tag_class" where
  "token_class tok = (if CQ_TAG_REGEXP_exec tok = None then ClassCQText else ClassCQTag)"

definition token_type :: "string \<Rightarrow> string" where
  "token_type tok = (case CQ_TAG_REGEXP_exec tok of None \<Rightarrow> ''text'' | Some (name, value) \<Rightarrow> name)"

definition token_data :: "string \<Rightarrow> obj" where
  "token_data tok =
     (case CQ_TAG_REGEXP_exec tok of
        None \<Rightarrow> [(''text'', Str tok)]
      | Some (name, None) \<Rightarrow> []
      | Some (name, Some value) \<Rightarrow> Object_fromEntries (map attribute (split_str value CHR '','')))"

definition token_tag :: "nat \<Rightarrow> string \<Rightarrow> cqtag" where
  "token_tag a tok =
     \<lparr>tag_class = token_class tok, tag_type = token_type tok, tag_data = a, tag_modifier = a + 1,
      tag_accessors = map fst (token_data tok)\<rparr>"

fun token_tags :: "nat \<Rightarrow> string list \<Rightarrow> cqtag list" where
  "token_tags a [] = []"
| "token_tags a (tok # toks) = token_tag a tok # token_tags (a + 2) toks"

fun token_cells :: "string list \<Rightarrow> obj list" where
  "token_cells [] = []"
| "token_cells (tok # toks) = token_data tok # [] # token_cells toks"

subsection \<open>Escaper: proofs\<close>

lemma replaceAll_single:
  "replaceAll [c] rep s = concat (map (\<lambda>x. if x = c then rep else [x]) s)"
  by (induction s) auto

lemma concat_map_concat_map:
  "concat (map f (concat (map g s))) = concat (map (\<lambda>x. concat (map f (g x))) s)"
  by (induction s) simp_all

lemma escape_entity: "escape s b = concat (map (entity b True True) s)"
  unfolding escape_def Let_def replaceAll_single concat_map_concat_map
  by (cases b) (auto simp: entity_def intro!: arg_cong[where f=concat])

lemma unescape_comma:
  "replaceAll ''&#44;'' '','' (concat (map (entity b True True) s))
     = concat (map (entity False True True) s)"
  by (induction s) (simp_all add: entity_def)

lemma unescape_lbracket:
  "replaceAll ''&#91;'' ''['' (concat (map (entity False True True) s))
     = concat (map (entity False False True) s)"
  by (induction s) (simp_all add: entity_def)

lemma unescape_rbracket:
  "replaceAll ''&#93;'' '']'' (concat (map (entity False False True) s))
     = concat (map (entity False False False) s)"
  by (induction s) (simp_all add: entity_def)

lemma unescape_amp:
  "replaceAll ''&amp;'' ''&'' (concat (map (entity False False False) s)) = s"
  by (induction s) (simp_all add: entity_def)

lemma unescape_escape: "unescape (escape s b) = s"
  by (simp add: unescape_def escape_entity unescape_comma unescape_lbracket
      unescape_rbracket unescape_amp)

text \<open>
  C1. For every string \<open>s\<close> that contains none of the literal sequences \<open>&amp;\<close>,
  \<open>&#91;\<close>, \<open>&#93;\<close>, \<open>&#44;\<close>, unescaping the escaped string gives \<open>s\<close> back, both
  with \<open>insideCQ = true\<close> and with \<open>insideCQ = false\<close>. (The round trip does not need
  the restriction on \<open>s\<close>: \<open>unescape_escape\<close> holds for every string, because \<open>escape\<close>
  rewrites every \<open>&\<close> first.)
\<close>

theorem C1_escape_unescape_roundtrip:
  assumes "\<not> contains s ''&amp;''" and "\<not> contains s ''&#91;''"
    and "\<not> contains s ''&#93;''" and "\<not> contains s ''&#44;''"
  shows "unescape (escape s True) = s \<and> unescape (escape s False) = s"
  by (simp add: unescape_escape)

theorem C1_escape_unescape_roundtrip_witness:
  "\<not> contains ''a&b[1],c]'' ''&amp;'' \<and> \<not> contains ''a&b[1],c]'' ''&#91;''
   \<and> \<not> contains ''a&b[1],c]'' ''&#93;'' \<and> \<not> contains ''a&b[1],c]'' ''&#44;''
   \<and> escape ''a&b[1],c]'' True = ''a&amp;b&#91;1&#93;&#44;c&#93;''
   \<and> escape ''a&b[1],c]'' False = ''a&amp;b&#91;1&#93;,c&#93;''
   \<and> unescape (escape ''a&b[1],c]'' True) = ''a&b[1],c]''
   \<and> unescape (escape ''a&b[1],c]'' False) = ''a&b[1],c]''"
  using C1_escape_unescape_roundtrip [of "''a&b[1],c]''"]
  by (simp add: escape_def)

subsection \<open>Tokenizer: proofs\<close>

lemmas eval_split = split_SPLIT_def SPLIT_at_def split_loop.simps

lemma concat_split_loop:
  "p \<le> q \<Longrightarrow> q \<le> length s \<Longrightarrow> concat (split_loop s p q) = drop p s"
proof (induction s p q rule: split_loop.induct)
  case (1 s p q)
  show ?case
  proof (cases "q < length s")
    case False
    then show ?thesis by (subst split_loop.simps) simp
  next
    case inside: True
    show ?thesis
    proof (cases "SPLIT_at s q")
      case False
      with inside 1 show ?thesis by (subst split_loop.simps) simp
    next
      case at: True
      show ?thesis
      proof (cases "q = p")
        case True
        with inside at 1 show ?thesis by (subst split_loop.simps) simp
      next
        case False
        with inside at 1 have ih: "concat (split_loop s q q) = drop q s" by simp
        have "drop q s = drop (q - p) (drop p s)" using "1.prems" by simp
        then have "take (q - p) (drop p s) @ drop q s = drop p s"
          by (simp only: append_take_drop_id)
        with ih show ?thesis
          using inside at False by (subst split_loop.simps) (simp del: drop_drop)
      qed
    qed
  qed
qed

lemma concat_split_SPLIT: "concat (split_SPLIT s) = s"
  by (simp add: split_SPLIT_def SPLIT_at_def concat_split_loop)

text \<open>
  C6. For every message, the pieces the tokenizer produces, concatenated in their order,
  are the message itself.
\<close>

theorem C6_tokens_concat: "concat (split_SPLIT msg) = msg"
  by (rule concat_split_SPLIT)

theorem C6_tokens_concat_witness:
  "split_SPLIT ''hello [CQ:face,id=1] world'' = [''hello '', ''[CQ:face,id=1]'', '' world'']
   \<and> concat (split_SPLIT ''hello [CQ:face,id=1] world'') = ''hello [CQ:face,id=1] world''"
  using C6_tokens_concat [of "''hello [CQ:face,id=1] world''"]
  by (simp add: eval_split)

lemma starts_split_loop:
  "p \<le> q \<Longrightarrow> q \<le> length s \<Longrightarrow>
   set (token_starts p (split_loop s p q)) = insert p {i. q \<le> i \<and> i < length s \<and> i \<noteq> p \<and> SPLIT_at s i}"
proof (induction s p q rule: split_loop.induct)
  case (1 s p q)
  show ?case
  proof (cases "q < length s")
    case False
    then show ?thesis by (subst split_loop.simps) auto
  next
    case inside: True
    have shift: "{i. q \<le> i \<and> i < length s \<and> i \<noteq> p \<and> SPLIT_at s i}
        = (if SPLIT_at s q \<and> q \<noteq> p then {q} else {}) \<union> {i. q + 1 \<le> i \<and> i < length s \<and> i \<noteq> p \<and> SPLIT_at s i}"
      using inside by (auto simp: Suc_le_eq le_less)
    show ?thesis
    proof (cases "SPLIT_at s q")
      case False
      with inside 1 shift show ?thesis by (subst split_loop.simps) simp
    next
      case at: True
      show ?thesis
      proof (cases "q = p")
        case True
        with inside at 1 shift show ?thesis by (subst split_loop.simps) simp
      next
        case False
        with inside at 1 have ih: "set (token_starts q (split_loop s q q))
           = insert q {i. q \<le> i \<and> i < length s \<and> i \<noteq> q \<and> SPLIT_at s i}" by simp
        have len: "p + length (take (q - p) (drop p s)) = q"
          using "1.prems" inside by simp
        have "{i. q \<le> i \<and> i < length s \<and> i \<noteq> q \<and> SPLIT_at s i}
           = {i. q + 1 \<le> i \<and> i < length s \<and> i \<noteq> p \<and> SPLIT_at s i}"
          using "1.prems" by auto
        with ih len shift at False inside show ?thesis by (subst split_loop.simps) simp
      qed
    qed
  qed
qed

lemma starts_split_SPLIT:
  "set (token_starts 0 (split_SPLIT s)) = insert 0 {i. 0 < i \<and> i < length s \<and> SPLIT_at s i}"
  by (auto simp add: split_SPLIT_def starts_split_loop) (simp add: SPLIT_at_def)

lemmas eval_exec = CQ_TAG_REGEXP_exec_def is_lower_def

text \<open>
  C5, as the code has it. A piece starts at position \<open>i\<close> of the message exactly when
  \<open>i\<close> is \<open>0\<close>, or \<open>i\<close> lies strictly inside the message and either \<open>[CQ:\<close> starts
  at \<open>i\<close> or the character before \<open>i\<close> is \<open>]\<close>. So a new piece starts before every
  \<open>[CQ:\<close> and after every \<open>]\<close> that is not the last character, whether or not that \<open>]\<close>
  closes a well-formed tag token.
\<close>

theorem C5_token_boundaries:
  "i \<in> set (token_starts 0 (split_SPLIT s)) \<longleftrightarrow>
     i = 0 \<or> (0 < i \<and> i < length s \<and> (prefix ''[CQ:'' (drop i s) \<or> s ! (i - 1) = CHR '']''))"
  by (auto simp add: starts_split_SPLIT SPLIT_at_def)

theorem C5_token_boundaries_witness:
  "split_SPLIT ''x]y[CQ:a]'' = [''x]'', ''y'', ''[CQ:a]'']
   \<and> token_starts 0 (split_SPLIT ''x]y[CQ:a]'') = [0, 2, 3]
   \<and> (2 \<in> set (token_starts 0 (split_SPLIT ''x]y[CQ:a]'')))
   \<and> (1 \<notin> set (token_starts 0 (split_SPLIT ''x]y[CQ:a]'')))"
  using C5_token_boundaries [of 2 "''x]y[CQ:a]''"] C5_token_boundaries [of 1 "''x]y[CQ:a]''"]
  by (simp add: eval_split)

text \<open>
  That a \<open>]\<close> which closes no well-formed tag token starts no new piece, as the
  specification has it, fails on \<open>a]b\<close>: the piece \<open>b\<close> starts after the \<open>]\<close>, and neither \<open>a]\<close> nor \<open>]\<close> matches
  the tag pattern.
\<close>

theorem C5_counterexample:
  "split_SPLIT ''a]b'' = [''a]'', ''b'']
   \<and> CQ_TAG_REGEXP_exec ''a]'' = None \<and> CQ_TAG_REGEXP_exec '']'' = None"
  by (simp add: eval_split eval_exec)

subsection \<open>Objects: proofs\<close>

lemmas eval_obj = Object_assign_new_def Object_fromEntries_def CreateDataProperty_def has_own_def
  array_index_def is_digit_def dec_val_def overlaid_def render_def loose_eq_null_def
  alloc_def

lemma set_insert_index: "set (insert_index i k v ob) = insert (k, v) (set ob)"
  by (induction ob) (auto split: option.splits if_splits)

lemma distinct_insert_index:
  "distinct (map fst ob) \<Longrightarrow> k \<notin> fst ` set ob \<Longrightarrow> distinct (map fst (insert_index i k v ob))"
  by (induction ob) (auto simp: set_insert_index split: option.splits if_splits)

lemma map_fst_replace:
  "map fst (map (\<lambda>(k', v'). if k' = k then (k', v) else (k', v')) ob) = map fst ob"
  by (induction ob) auto

lemma CreateDataProperty_cases:
  "CreateDataProperty ob k v =
     (if k \<in> fst ` set ob then map (\<lambda>(k', v'). if k' = k then (k', v) else (k', v')) ob
      else if array_index k = None then ob @ [(k, v)]
      else insert_index (the (array_index k)) k v ob)"
  by (auto simp: CreateDataProperty_def has_own_def split: option.splits)

lemma distinct_CreateDataProperty:
  assumes "distinct (map fst ob)"
  shows "distinct (map fst (CreateDataProperty ob k v))"
proof (cases "k \<in> fst ` set ob")
  case True
  then have "map fst (CreateDataProperty ob k v) = map fst ob"
    by (simp only: CreateDataProperty_cases if_True map_fst_replace)
  with assms show ?thesis by simp
next
  case False
  with assms show ?thesis
    by (simp add: CreateDataProperty_cases distinct_insert_index)
qed

lemma distinct_Set_prop:
  "distinct (map fst (fst to)) \<Longrightarrow> distinct (map fst (fst (Set_prop to k v)))"
  by (cases to) (simp add: distinct_CreateDataProperty)

lemma distinct_assign_source:
  "distinct (map fst (fst to)) \<Longrightarrow>
   distinct (map fst (fst (foldl (\<lambda>to (k, v). Set_prop to k v) to from)))"
proof (induction "from" arbitrary: to)
  case Nil
  then show ?case by simp
next
  case (Cons e es)
  obtain k v where "e = (k, v)" by (cases e)
  with Cons.prems show ?case
    by (simp add: Cons.IH distinct_Set_prop)
qed

lemma distinct_assign_sources:
  "distinct (map fst (fst to)) \<Longrightarrow>
   distinct (map fst (fst (foldl (\<lambda>to from. foldl (\<lambda>to (k, v). Set_prop to k v) to from) to sources)))"
proof (induction sources arbitrary: to)
  case Nil
  then show ?case by simp
next
  case (Cons src sources)
  then show ?case by (simp add: Cons.IH distinct_assign_source)
qed

lemma distinct_Object_assign_new: "distinct (map fst (Object_assign_new sources))"
  unfolding Object_assign_new_def by (rule distinct_assign_sources) simp








lemma map_of_replace:
  "map_of (map (\<lambda>(k', v'). if k' = k then (k', v) else (k', v')) ob) k1
     = (if k1 = k \<and> k \<in> fst ` set ob then Some v else map_of ob k1)"
proof (induction ob)
  case Nil
  then show ?case by simp
next
  case (Cons e ob)
  obtain k2 v2 where e: "e = (k2, v2)" by (cases e)
  show ?case
  proof (cases "k2 = k")
    case True
    with Cons e show ?thesis by simp
  next
    case False
    with Cons e show ?thesis by (cases "k1 = k") simp_all
  qed
qed

lemma map_of_replace_fun:
  "k \<in> fst ` set ob \<Longrightarrow>
   map_of (map (\<lambda>(k', v'). if k' = k then (k', v) else (k', v')) ob) = (map_of ob)(k \<mapsto> v)"
  by (rule ext) (simp add: map_of_replace)

lemma map_of_insert_index:
  "k \<notin> fst ` set ob \<Longrightarrow> map_of (insert_index i k v ob) = (map_of ob)(k \<mapsto> v)"
proof (induction ob)
  case Nil
  then show ?case by simp
next
  case (Cons e ob)
  obtain k1 v1 where e: "e = (k1, v1)" by (cases e)
  with Cons.prems have ne: "k1 \<noteq> k" and notin: "k \<notin> fst ` set ob" by auto
  from Cons.IH [OF notin] e ne show ?case
    by (auto simp: fun_upd_twist split: option.splits)
qed

lemma map_of_CreateDataProperty:
  "map_of (CreateDataProperty ob k v) = (map_of ob)(k \<mapsto> v)"
proof (cases "k \<in> fst ` set ob")
  case True
  then show ?thesis
    by (simp add: CreateDataProperty_cases map_of_replace_fun)
next
  case False
  then have none: "map_of ob k = None" by (simp add: map_of_eq_None_iff)
  show ?thesis
  proof (cases "array_index k")
    case None
    with False none show ?thesis
      by (auto simp: CreateDataProperty_cases map_add_def split: option.splits)
  next
    case (Some i)
    with False show ?thesis
      by (simp add: CreateDataProperty_cases map_of_insert_index)
  qed
qed

lemma map_of_foldl_CreateDataProperty:
  "map_of (foldl (\<lambda>ob (k, v). CreateDataProperty ob k v) ob es) k
     = (case map_of (rev es) k of Some v \<Rightarrow> Some v | None \<Rightarrow> map_of ob k)"
proof (induction es arbitrary: ob)
  case Nil
  then show ?case by simp
next
  case (Cons e es)
  obtain k1 v1 where e: "e = (k1, v1)" by (cases e)
  show ?case
    unfolding e
    by (simp add: Cons.IH map_of_CreateDataProperty map_add_def split: option.splits)
qed

lemma map_of_fromEntries: "map_of (Object_fromEntries es) k = map_of (rev es) k"
  by (simp add: Object_fromEntries_def map_of_foldl_CreateDataProperty split: option.splits)

lemma map_of_rev_last:
  assumes "i < length es" and "es ! i = (k, v)"
    and "\<And>j. i < j \<Longrightarrow> j < length es \<Longrightarrow> fst (es ! j) \<noteq> k"
  shows "map_of (rev es) k = Some v"
proof -
  have split: "es = take i es @ (k, v) # drop (Suc i) es"
    using assms(1,2) by (metis id_take_nth_drop)
  have "k \<notin> fst ` set (drop (Suc i) es)"
  proof
    assume "k \<in> fst ` set (drop (Suc i) es)"
    then obtain e where "e \<in> set (drop (Suc i) es)" "fst e = k" by auto
    then obtain n where n: "n < length (drop (Suc i) es)" "drop (Suc i) es ! n = e"
      by (auto simp: in_set_conv_nth)
    then have "Suc i + n < length es" "es ! (Suc i + n) = e" by auto
    with assms(3) [of "Suc i + n"] \<open>fst e = k\<close> show False by simp
  qed
  then have "map_of (rev (drop (Suc i) es)) k = None"
    by (simp add: map_of_eq_None_iff)
  moreover have "rev es = rev (drop (Suc i) es) @ (k, v) # rev (take i es)"
    by (subst split) simp
  ultimately show ?thesis by (simp add: map_add_def)
qed

lemma get_prop_fromEntries_last:
  assumes "i < length ps" and "fst (f (ps ! i)) = k"
    and "\<And>j. i < j \<Longrightarrow> j < length ps \<Longrightarrow> fst (f (ps ! j)) \<noteq> k"
  shows "get_prop (Object_fromEntries (map f ps)) k = snd (f (ps ! i))"
proof -
  have "map_of (rev (map f ps)) k = Some (snd (f (ps ! i)))"
  proof (rule map_of_rev_last [where i = i])
    show "i < length (map f ps)" using assms(1) by simp
    show "map f ps ! i = (k, snd (f (ps ! i)))" using assms(1,2) by (simp add: prod_eq_iff)
    show "fst (map f ps ! j) \<noteq> k" if "i < j" "j < length (map f ps)" for j
      using that assms(3) [of j] by simp
  qed
  then show ?thesis by (simp add: get_prop_def map_of_fromEntries)
qed




lemma fromEntries_text: "Object_fromEntries [(''text'', v)] = [(''text'', v)]"
  by (simp add: Object_fromEntries_def CreateDataProperty_def has_own_def array_index_def is_digit_def)

subsection \<open>Parser: proofs\<close>

lemma strip_prefix_Some: "strip_prefix p s = Some r \<longleftrightarrow> s = p @ r"
  by (induction p s rule: strip_prefix.induct) auto

lemma not_lower_delims: "\<not> is_lower CHR '',''" "\<not> is_lower CHR '']''"
  by (simp_all add: is_lower_def)

lemma exec_sound:
  assumes "CQ_TAG_REGEXP_exec s = Some (name, value)"
  shows "tag_shape s name value"
proof -
  from assms obtain r where r: "strip_prefix ''[CQ:'' s = Some r"
    by (auto simp: CQ_TAG_REGEXP_exec_def split: option.splits)
  then have s: "s = ''[CQ:'' @ r" by (simp only: strip_prefix_Some)
  let ?n = "takeWhile is_lower r" and ?rest = "dropWhile is_lower r"
  have rsplit: "r = ?n @ ?rest" by simp
  have lower: "list_all is_lower ?n"
    by (simp add: list_all_iff) (meson set_takeWhileD)
  from assms r have ne: "?n \<noteq> []"
    by (auto simp: CQ_TAG_REGEXP_exec_def Let_def split: if_splits)
  show ?thesis
  proof (cases "?rest = '']''")
    case True
    with assms r ne have "name = ?n" "value = None"
      by (auto simp: CQ_TAG_REGEXP_exec_def Let_def split: if_splits)
    moreover have "s = ''[CQ:'' @ ?n @ '']''" using s rsplit True by metis
    ultimately show ?thesis using ne lower by (simp add: tag_shape_def)
  next
    case False
    with assms r ne obtain r2 where rest: "?rest = CHR '','' # r2"
      by (auto simp: CQ_TAG_REGEXP_exec_def Let_def split: if_splits list.splits)
    let ?v = "takeWhile (\<lambda>x. x \<noteq> CHR '']'') r2" and ?r3 = "dropWhile (\<lambda>x. x \<noteq> CHR '']'') r2"
    from assms r ne False rest have res: "name = ?n" "value = Some ?v" "?v \<noteq> []" "?r3 = '']''"
      by (auto simp: CQ_TAG_REGEXP_exec_def Let_def split: if_splits list.splits)
    have "r2 = ?v @ ?r3" by simp
    with res have r2: "r2 = ?v @ '']''" by simp
    have nob: "CHR '']'' \<notin> set ?v" using set_takeWhileD [of "CHR '']''" "\<lambda>x. x \<noteq> CHR '']''" r2] by blast
    have "s = ''[CQ:'' @ ?n @ '','' @ ?v @ '']''"
      using s rsplit rest r2 by (metis append_Cons append_Nil)
    with res ne lower nob show ?thesis by (simp add: tag_shape_def)
  qed
qed

lemma takeWhile_lower_name:
  assumes "list_all is_lower name" and "\<not> is_lower c"
  shows "takeWhile is_lower (name @ c # t) = name" and "dropWhile is_lower (name @ c # t) = c # t"
  using assms by (simp_all add: list_all_iff takeWhile_append2 dropWhile_append2)

lemma takeWhile_value:
  assumes "CHR '']'' \<notin> set v"
  shows "takeWhile (\<lambda>x. x \<noteq> CHR '']'') (v @ '']'') = v"
    and "dropWhile (\<lambda>x. x \<noteq> CHR '']'') (v @ '']'') = '']''"
proof -
  have all: "\<And>x. x \<in> set v \<Longrightarrow> x \<noteq> CHR '']''" using assms by auto
  show "takeWhile (\<lambda>x. x \<noteq> CHR '']'') (v @ '']'') = v"
    using all by (simp add: takeWhile_append2)
  show "dropWhile (\<lambda>x. x \<noteq> CHR '']'') (v @ '']'') = '']''"
    using all by (simp add: dropWhile_append2)
qed

lemma exec_complete:
  assumes "tag_shape s name value"
  shows "CQ_TAG_REGEXP_exec s = Some (name, value)"
proof (cases "value")
  case None
  with assms have s: "s = ''[CQ:'' @ name @ '']''" and ne: "name \<noteq> []" and lo: "list_all is_lower name"
    by (simp_all add: tag_shape_def)
  have sp: "strip_prefix ''[CQ:'' s = Some (name @ '']'')"
    unfolding s by (simp only: strip_prefix_Some)
  show ?thesis
    using None ne
    by (simp add: CQ_TAG_REGEXP_exec_def sp takeWhile_lower_name [OF lo not_lower_delims(2)])
next
  case (Some v)
  with assms have s: "s = ''[CQ:'' @ name @ '','' @ v @ '']''" and ne: "name \<noteq> []"
    and lo: "list_all is_lower name" and v: "v \<noteq> []" "CHR '']'' \<notin> set v"
    by (simp_all add: tag_shape_def)
  have sp: "strip_prefix ''[CQ:'' s = Some (name @ CHR '','' # v @ '']'')"
    unfolding s by (simp add: strip_prefix_Some)
  show ?thesis
    using Some ne v
    by (simp add: CQ_TAG_REGEXP_exec_def sp takeWhile_lower_name [OF lo not_lower_delims(1)]
        takeWhile_value [OF v(2)])
qed

lemma exec_iff_shape: "CQ_TAG_REGEXP_exec s = Some (name, value) \<longleftrightarrow> tag_shape s name value"
  using exec_sound exec_complete by blast

lemma exec_None_iff: "CQ_TAG_REGEXP_exec s = None \<longleftrightarrow> \<not> matches_tag_grammar s"
proof
  assume n: "CQ_TAG_REGEXP_exec s = None"
  show "\<not> matches_tag_grammar s"
  proof
    assume "matches_tag_grammar s"
    then obtain name v where "tag_shape s name v" unfolding matches_tag_grammar_def by blast
    then have "CQ_TAG_REGEXP_exec s = Some (name, v)" by (rule exec_complete)
    with n show False by simp
  qed
next
  assume m: "\<not> matches_tag_grammar s"
  show "CQ_TAG_REGEXP_exec s = None"
  proof (rule ccontr)
    assume "CQ_TAG_REGEXP_exec s \<noteq> None"
    then obtain name v where "CQ_TAG_REGEXP_exec s = Some (name, v)" by auto
    then have "tag_shape s name v" by (rule exec_sound)
    with m show False unfolding matches_tag_grammar_def by blast
  qed
qed

lemma parseToken_eq:
  "parseToken h tok = (token_tag (length h) tok, h @ [token_data tok, []])"
  by (auto simp: parseToken_def new_CQText_def new_CQTag_def alloc_def token_tag_def
      token_class_def token_type_def token_data_def fromEntries_text nth_append split: option.splits)

lemma map_heap_parseToken:
  "map_heap parseToken h toks = (token_tags (length h) toks, h @ token_cells toks)"
  by (induction toks arbitrary: h) (simp_all add: parseToken_eq)

lemma parse_eq:
  "parse h msg = (token_tags (length h) (split_SPLIT msg), h @ token_cells (split_SPLIT msg))"
  by (simp add: parse_def map_heap_parseToken)

lemma nth_token_tags: "i < length toks \<Longrightarrow> token_tags a toks ! i = token_tag (a + 2 * i) (toks ! i)"
proof (induction toks arbitrary: a i)
  case Nil
  then show ?case by simp
next
  case (Cons tok toks)
  show ?case
  proof (cases i)
    case 0
    then show ?thesis by simp
  next
    case (Suc j)
    with Cons.prems have "j < length toks" by simp
    then have "token_tags (a + 2) toks ! j = token_tag (a + 2 + 2 * j) (toks ! j)"
      by (rule Cons.IH)
    with Suc show ?thesis by simp
  qed
qed

lemma nth_token_cells:
  "i < length toks \<Longrightarrow> token_cells toks ! (2 * i) = token_data (toks ! i)"
proof (induction toks arbitrary: i)
  case Nil
  then show ?case by simp
next
  case (Cons tok toks)
  show ?case
  proof (cases i)
    case 0
    then show ?thesis by simp
  next
    case (Suc j)
    with Cons.prems have "j < length toks" by simp
    then have "token_cells toks ! (2 * j) = token_data (toks ! j)" by (rule Cons.IH)
    with Suc show ?thesis by simp
  qed
qed

lemma parse_nth_data:
  assumes "i < length (split_SPLIT msg)"
  shows "snd (parse h msg) ! tag_data (fst (parse h msg) ! i) = token_data (split_SPLIT msg ! i)"
    and "tag_class (fst (parse h msg) ! i) = token_class (split_SPLIT msg ! i)"
    and "tag_type (fst (parse h msg) ! i) = token_type (split_SPLIT msg ! i)"
    and "tag_accessors (fst (parse h msg) ! i) = map fst (token_data (split_SPLIT msg ! i))"
  using assms
  by (simp_all add: parse_eq nth_token_tags token_tag_def nth_append nth_token_cells)

lemmas eval_parse = parse_eq eval_split eval_exec token_tag_def token_class_def token_type_def
  token_data_def attribute_def substr_def

text \<open>
  C8. For every token that does not match the tag grammar, the tag-token parser returns
  a tag value (it has no way to signal an error): a literal-text value of type \<open>text\<close>
  whose only attribute, \<open>text\<close>, is the token unchanged. The token \<open>[CQ:bad\<close> is one.
\<close>

theorem C8_literal_fallback:
  assumes "\<not> matches_tag_grammar tok"
  shows "parseToken h tok =
           (\<lparr>tag_class = ClassCQText, tag_type = ''text'', tag_data = length h,
              tag_modifier = length h + 1, tag_accessors = [''text'']\<rparr>,
            h @ [[(''text'', Str tok)], []])
         \<and> get_prop (snd (parseToken h tok) ! tag_data (fst (parseToken h tok))) ''text'' = Str tok"
proof -
  from assms have "CQ_TAG_REGEXP_exec tok = None" using exec_None_iff by blast
  then show ?thesis
    by (simp add: parseToken_eq token_tag_def token_class_def token_type_def token_data_def get_prop_def)
qed

theorem C8_literal_fallback_witness:
  "\<not> matches_tag_grammar ''[CQ:bad''
   \<and> parseToken [] ''[CQ:bad'' =
       (\<lparr>tag_class = ClassCQText, tag_type = ''text'', tag_data = 0, tag_modifier = 1,
          tag_accessors = [''text'']\<rparr>,
        [[(''text'', Str ''[CQ:bad'')], []])
   \<and> get_prop (snd (parseToken [] ''[CQ:bad'') ! tag_data (fst (parseToken [] ''[CQ:bad''))) ''text''
       = Str ''[CQ:bad''"
proof -
  have g: "\<not> matches_tag_grammar ''[CQ:bad''"
    by (simp add: exec_None_iff [symmetric] eval_exec)
  show ?thesis
    using g C8_literal_fallback [OF g, of "[]"] by (simp add: get_prop_def)
qed

text \<open>
  C3, as the code has it. The message parser applied to the empty string produces a
  sequence of exactly one tag value, the literal-text value whose text is the empty
  string: splitting the empty string gives one empty piece.
\<close>

theorem C3_parse_empty:
  "parse h '''' =
     ([\<lparr>tag_class = ClassCQText, tag_type = ''text'', tag_data = length h,
        tag_modifier = length h + 1, tag_accessors = [''text'']\<rparr>],
      h @ [[(''text'', Str '''')], []])"
  by (simp add: eval_parse)

theorem C3_parse_empty_witness:
  "parse [] '''' =
     ([\<lparr>tag_class = ClassCQText, tag_type = ''text'', tag_data = 0, tag_modifier = 1,
        tag_accessors = [''text'']\<rparr>],
      [[(''text'', Str '''')], []])"
  using C3_parse_empty [of "[]"] by simp

text \<open>The sequence for the empty string is not empty.\<close>

theorem C3_counterexample:
  "fst (parse [] '''') \<noteq> [] \<and> length (fst (parse [] '''')) = 1
   \<and> split_SPLIT '''' = ['''']"
  by (simp add: eval_parse)

lemma indexOf_absent: "c \<notin> set v \<Longrightarrow> indexOf v c = - 1"
  by (induction v) (auto simp: Let_def)

lemma attribute_no_eq: "CHR ''='' \<notin> set v \<Longrightarrow> attribute v = ([], Str v)"
  by (simp add: attribute_def indexOf_absent substr_def)

text \<open>
  C9, as the code has it. A piece of the attribute part that contains no \<open>=\<close> gives the
  pair with the empty key and the whole piece as value. The base mapping keeps one entry
  for each key, the one of the last pair with that key: its entry for the empty key has
  the piece as value when no later piece gives the empty key too.
\<close>

theorem C9_piece_without_equals:
  "(CHR ''='' \<notin> set piece \<longrightarrow> attribute piece = ('''', Str piece))
   \<and> (CQ_TAG_REGEXP_exec tok = Some (name, Some value)
        \<and> i < length (split_str value CHR '','')
        \<and> CHR ''='' \<notin> set (split_str value CHR '','' ! i)
        \<and> (\<forall>j. i < j \<and> j < length (split_str value CHR '','')
                \<longrightarrow> fst (attribute (split_str value CHR '','' ! j)) \<noteq> '''')
      \<longrightarrow> get_prop (snd (parseToken h tok) ! tag_data (fst (parseToken h tok))) ''''
            = Str (split_str value CHR '','' ! i))"
proof -
  have "get_prop (snd (parseToken h tok) ! tag_data (fst (parseToken h tok))) ''''
            = Str (split_str value CHR '','' ! i)"
    if ex: "CQ_TAG_REGEXP_exec tok = Some (name, Some value)"
      and i: "i < length (split_str value CHR '','')"
      and noeq: "CHR ''='' \<notin> set (split_str value CHR '','' ! i)"
      and later: "\<And>j. i < j \<Longrightarrow> j < length (split_str value CHR '','')
                \<Longrightarrow> fst (attribute (split_str value CHR '','' ! j)) \<noteq> ''''"
  proof -
    have cell: "snd (parseToken h tok) ! tag_data (fst (parseToken h tok))
                = Object_fromEntries (map attribute (split_str value CHR '',''))"
      using ex by (simp add: parseToken_eq token_tag_def token_data_def)
    have at: "attribute (split_str value CHR '','' ! i) = ('''', Str (split_str value CHR '','' ! i))"
      using noeq by (rule attribute_no_eq)
    have "get_prop (Object_fromEntries (map attribute (split_str value CHR '',''))) ''''
          = snd (attribute (split_str value CHR '','' ! i))"
      using i later by (intro get_prop_fromEntries_last) (simp_all add: at)
    with cell at show ?thesis by simp
  qed
  then show ?thesis by (auto simp: attribute_no_eq)
qed

theorem C9_piece_without_equals_witness:
  "CQ_TAG_REGEXP_exec ''[CQ:x,a=1,b,c=2]'' = Some (''x'', Some ''a=1,b,c=2'')
   \<and> split_str ''a=1,b,c=2'' CHR '','' = [''a=1'', ''b'', ''c=2'']
   \<and> CHR ''='' \<notin> set ''b'' \<and> fst (attribute ''c=2'') \<noteq> ''''
   \<and> attribute ''b'' = ('''', Str ''b'')
   \<and> snd (parseToken [] ''[CQ:x,a=1,b,c=2]'') ! tag_data (fst (parseToken [] ''[CQ:x,a=1,b,c=2]''))
       = [(''a'', Str ''1''), ('''', Str ''b''), (''c'', Str ''2'')]
   \<and> get_prop (snd (parseToken [] ''[CQ:x,a=1,b,c=2]'') ! tag_data (fst (parseToken [] ''[CQ:x,a=1,b,c=2]''))) ''''
       = Str ''b''"
  using C9_piece_without_equals [of "''b''" "''[CQ:x,a=1,b,c=2]''" "''x''" "''a=1,b,c=2''" 1 "[]"]
  by (simp add: parseToken_eq eval_parse eval_obj get_prop_def)

text \<open>
  Of the token \<open>[CQ:x,a,b]\<close> both pieces have no \<open>=\<close>; the base mapping has one entry,
  with the value \<open>b\<close>, and none with the value \<open>a\<close>.
\<close>

theorem C9_counterexample:
  "CQ_TAG_REGEXP_exec ''[CQ:x,a,b]'' = Some (''x'', Some ''a,b'')
   \<and> split_str ''a,b'' CHR '','' = [''a'', ''b'']
   \<and> CHR ''='' \<notin> set ''a''
   \<and> snd (parseToken [] ''[CQ:x,a,b]'') ! tag_data (fst (parseToken [] ''[CQ:x,a,b]''))
       = [('''', Str ''b'')]"
  by (simp add: parseToken_eq eval_parse eval_obj)

subsection \<open>Serialisation: proofs\<close>

lemmas eval_tag = has_accessor_def read_data_def accessor_get_def read_type_def read_modifier_def
  read_tagName_def source_props_def call_method_def get_prop_def outcome_def store_after_def
  structured_def

lemma foldl_render:
  "foldl (\<lambda>ret (k, v). if v \<noteq> Undefined then ret @ '','' @ k @ ''='' @ ToString v else ret) ret ob
     = ret @ render (filter (\<lambda>(k, v). v \<noteq> Undefined) ob)"
  by (induction ob arbitrary: ret) (auto simp: render_def)

lemma CQTag_toString_eq:
  "CQTag_toString h this =
     (case read_type h this of
        Inl e \<Rightarrow> Inl e
      | Inr type \<Rightarrow>
     (case read_data this of
        Inl e \<Rightarrow> Inl e
      | Inr d \<Rightarrow>
     (case read_modifier h this of
        Inl e \<Rightarrow> Inl e
      | Inr m \<Rightarrow>
          Inr (''[CQ:'' @ ToString type
                 @ render (filter (\<lambda>(k, v). v \<noteq> Undefined)
                             (Object_assign_new [h ! d, source_props h m]))
                 @ '']'',
               h @ [Object_assign_new [h ! d, source_props h m]]))))"
  by (simp add: CQTag_toString_def alloc_def foldl_render split: sum.splits)

lemma foldl_delete_cell:
  "a < length h \<Longrightarrow>
   foldl (\<lambda>h (k, v). if loose_eq_null v then h[a := delete_prop (h ! a) k] else h) h es
     = h[a := foldl (\<lambda>ob (k, v). if loose_eq_null v then delete_prop ob k else ob) (h ! a) es]"
proof (induction es arbitrary: h)
  case Nil
  then show ?case by simp
next
  case (Cons e es)
  obtain k v where e: "e = (k, v)" by (cases e)
  show ?case
  proof (cases "loose_eq_null v")
    case True
    with Cons e show ?thesis by simp
  next
    case False
    with Cons e show ?thesis by simp
  qed
qed

lemma null_keys_Nil: "null_keys [] = {}"
  by (simp add: null_keys_def)

lemma null_keys_Cons:
  "null_keys ((k, v) # es) = (if loose_eq_null v then insert k (null_keys es) else null_keys es)"
  unfolding null_keys_def by (cases "loose_eq_null v") auto

lemma filter_delete_prop:
  "filter (\<lambda>(k', v'). k' \<notin> K) (delete_prop ob k) = filter (\<lambda>(k', v'). k' \<notin> insert k K) ob"
  by (induction ob) (auto simp: delete_prop_def)

lemma foldl_delete_filter:
  "foldl (\<lambda>ob (k, v). if loose_eq_null v then delete_prop ob k else ob) ob es
     = filter (\<lambda>(k, v). k \<notin> null_keys es) ob"
proof (induction es arbitrary: ob)
  case Nil
  then show ?case by (simp add: null_keys_Nil)
next
  case (Cons e es)
  obtain k v where e: "e = (k, v)" by (cases e)
  show ?case
  proof (cases "loose_eq_null v")
    case True
    then show ?thesis
      unfolding e by (simp add: Cons.IH filter_delete_prop null_keys_Cons)
  next
    case False
    then show ?thesis
      unfolding e by (simp add: Cons.IH null_keys_Cons)
  qed
qed

lemma delete_own_nulls:
  assumes "distinct (map fst ob)"
  shows "foldl (\<lambda>ob (k, v). if loose_eq_null v then delete_prop ob k else ob) ob ob
           = filter (\<lambda>(k, v). \<not> loose_eq_null v) ob"
proof -
  have same: "(k \<notin> null_keys ob) = (\<not> loose_eq_null v)" if kv: "(k, v) \<in> set ob" for k v
  proof -
    have "v' = v" if "(k, v') \<in> set ob" for v'
      using assms that kv by (rule eq_key_imp_eq_value)
    then show ?thesis using kv unfolding null_keys_def by blast
  qed
  have "filter (\<lambda>(k, v). k \<notin> null_keys ob) ob = filter (\<lambda>(k, v). \<not> loose_eq_null v) ob"
  proof (rule filter_cong)
    show "ob = ob" by simp
  next
    fix x assume xin: "x \<in> set ob"
    obtain k v where x: "x = (k, v)" by (cases x)
    from xin same [of k v]
    show "(case x of (k, v) \<Rightarrow> k \<notin> null_keys ob) = (case x of (k, v) \<Rightarrow> \<not> loose_eq_null v)"
      unfolding x by simp
  qed
  then show ?thesis by (simp only: foldl_delete_filter)
qed

lemma delete_in_new_cell:
  "foldl (\<lambda>h' (k, v). if loose_eq_null v then h'[length h := delete_prop (h' ! length h) k] else h')
     (h @ [Object_assign_new srcs]) (Object_assign_new srcs)
   = h @ [filter (\<lambda>(k, v). \<not> loose_eq_null v) (Object_assign_new srcs)]"
proof -
  let ?ov = "Object_assign_new srcs"
  have cell: "(h @ [?ov]) ! length h = ?ov" by simp
  have "foldl (\<lambda>h' (k, v). if loose_eq_null v then h'[length h := delete_prop (h' ! length h) k] else h')
          (h @ [?ov]) ?ov
        = (h @ [?ov])[length h := filter (\<lambda>(k, v). \<not> loose_eq_null v) ?ov]"
    by (subst foldl_delete_cell)
       (simp_all only: cell delete_own_nulls [OF distinct_Object_assign_new] length_append_singleton lessI)
  then show ?thesis by simp
qed

lemma CQTag_toTag_eq:
  "CQTag_toTag h this =
     (case read_data this of
        Inl e \<Rightarrow> Inl e
      | Inr d \<Rightarrow>
     (case read_modifier h this of
        Inl e \<Rightarrow> Inl e
      | Inr m \<Rightarrow>
     (case read_tagName
             (h @ [filter (\<lambda>(k, v). \<not> loose_eq_null v) (Object_assign_new [h ! d, source_props h m])])
             this of
        Inl e \<Rightarrow> Inl e
      | Inr type \<Rightarrow>
          Inr (\<lparr>struct_type = type, struct_data = length h\<rparr>,
               h @ [filter (\<lambda>(k, v). \<not> loose_eq_null v)
                      (Object_assign_new [h ! d, source_props h m])]))))"
  by (simp add: CQTag_toTag_def alloc_def delete_in_new_cell split: sum.splits)

lemma no_member_accessorD:
  assumes "no_member_accessor this"
  shows "\<not> has_accessor this ''_type''" "\<not> has_accessor this ''_data''"
    "\<not> has_accessor this ''_modifier''" "\<not> has_accessor this ''tagName''"
    "\<not> has_accessor this ''toString''" "\<not> has_accessor this ''toTag''"
    "\<not> has_accessor this ''modifier''"
  using assms
  by (auto simp: no_member_accessor_def member_names_def has_accessor_def list_all_iff)



lemma modifier_plain:
  assumes "no_member_accessor this"
  shows "modifier h this m = Inr (this\<lparr>tag_modifier := m\<rparr>)"
  using no_member_accessorD [OF assms]
  by (simp add: modifier_def call_method_def CQTag_modifier_def)







lemma read_data_Inr: "read_data this = Inr d \<Longrightarrow> d = tag_data this"
  by (simp add: read_data_def split: if_splits)

lemma toString_frame: "take (length h) (store_after h (toString h this)) = h"
  by (simp add: store_after_def toString_def call_method_def CQText_toString_def CQTag_toString_eq
      split: sum.splits tag_class.splits)

lemma toTag_Inr:
  assumes "toTag h this = Inr (t, h1)"
  shows "struct_data t = length h" and "length h1 = Suc (length h)" and "take (length h) h1 = h"
  using assms
  by (auto simp: toTag_def call_method_def CQTag_toTag_eq split: sum.splits if_splits)

lemma toTag_frame: "take (length h) (store_after h (toTag h this)) = h"
proof (cases "toTag h this")
  case (Inl e)
  then show ?thesis by (simp add: store_after_def)
next
  case (Inr r)
  obtain t h1 where r: "r = (t, h1)" by (cases r)
  with Inr toTag_Inr(3) [of h this t h1] show ?thesis by (simp add: store_after_def)
qed

lemma frame_nth:
  assumes "take (length h) h' = h" and "i < length h"
  shows "h' ! i = h ! i"
proof -
  have "take (length h) h' ! i = h' ! i" using assms(2) by simp
  with assms(1) show ?thesis by simp
qed

lemma frame_length:
  assumes "take (length h) h' = h"
  shows "length h \<le> length h'"
proof -
  have "length (take (length h) h') = length h" using assms by simp
  then show ?thesis by simp
qed

lemma reads_cong:
  assumes "h' ! tag_data this = h ! tag_data this"
  shows "accessor_get h' this k = accessor_get h this k"
    and "read_type h' this = read_type h this"
    and "read_modifier h' this = read_modifier h this"
    and "read_tagName h' this = read_tagName h this"
proof -
  show a: "accessor_get h' this k = accessor_get h this k" for k
    using assms by (auto simp: accessor_get_def dest: read_data_Inr split: sum.splits)
  show "read_type h' this = read_type h this" by (simp add: read_type_def a)
  then show "read_tagName h' this = read_tagName h this" by (simp add: read_tagName_def a)
  show "read_modifier h' this = read_modifier h this" by (simp add: read_modifier_def a)
qed

lemma source_props_cong:
  assumes "h' ! tag_modifier this = h ! tag_modifier this" and "read_modifier h this = Inr m"
  shows "source_props h' m = source_props h m"
  using assms
  by (auto simp: read_modifier_def source_props_def split: if_splits sum.splits)

lemma CQTag_toString_cong:
  assumes "h' ! tag_data this = h ! tag_data this"
    and "h' ! tag_modifier this = h ! tag_modifier this"
  shows "outcome (CQTag_toString h' this) = outcome (CQTag_toString h this)"
proof (cases "read_modifier h this")
  case (Inl e)
  then show ?thesis
    by (simp add: outcome_def CQTag_toString_eq reads_cong [OF assms(1)] split: sum.splits)
next
  case (Inr m)
  have d: "h' ! d = h ! d" if "read_data this = Inr d" for d
    using that assms(1) by (auto dest: read_data_Inr)
  show ?thesis
    using Inr d source_props_cong [OF assms(2) Inr]
    by (auto simp: outcome_def CQTag_toString_eq reads_cong [OF assms(1)] split: sum.splits)
qed

lemma toString_cong:
  assumes "h' ! tag_data this = h ! tag_data this"
    and "h' ! tag_modifier this = h ! tag_modifier this"
  shows "outcome (toString h' this) = outcome (toString h this)"
proof (cases "has_accessor this ''toString''")
  case True
  then show ?thesis
    by (simp add: toString_def call_method_def reads_cong [OF assms(1)] outcome_def split: sum.splits)
next
  case False
  show ?thesis
  proof (cases "tag_class this")
    case ClassCQTag
    with False CQTag_toString_cong [OF assms] show ?thesis
      by (simp add: toString_def call_method_def)
  next
    case ClassCQText
    with False assms(1) show ?thesis
      by (auto simp: toString_def call_method_def CQText_toString_def outcome_def
          dest: read_data_Inr split: sum.splits)
  qed
qed

lemma CQTag_toTag_cong:
  assumes "h' ! tag_data this = h ! tag_data this"
    and "h' ! tag_modifier this = h ! tag_modifier this"
    and "tag_data this < length h" and "tag_data this < length h'"
  shows "structured (CQTag_toTag h' this) = structured (CQTag_toTag h this)"
proof (cases "read_modifier h this")
  case (Inl e)
  then show ?thesis
    by (simp add: structured_def CQTag_toTag_eq reads_cong [OF assms(1)] split: sum.splits)
next
  case (Inr m)
  have d: "h' ! d = h ! d" if "read_data this = Inr d" for d
    using that assms(1) by (auto dest: read_data_Inr)
  have t: "read_tagName (h @ [x]) this = read_tagName h this" for x
    by (rule reads_cong(4)) (use assms in \<open>simp add: nth_append\<close>)
  have t': "read_tagName (h' @ [x]) this = read_tagName h this" for x
    by (rule reads_cong(4)) (use assms in \<open>simp add: nth_append\<close>)
  show ?thesis
    using Inr d source_props_cong [OF assms(2) Inr]
    by (auto simp: structured_def CQTag_toTag_eq reads_cong [OF assms(1)] t t'
        split: sum.splits)
qed

lemma toTag_cong:
  assumes "h' ! tag_data this = h ! tag_data this"
    and "h' ! tag_modifier this = h ! tag_modifier this"
    and "tag_data this < length h" and "tag_data this < length h'"
  shows "structured (toTag h' this) = structured (toTag h this)"
proof (cases "has_accessor this ''toTag''")
  case True
  then show ?thesis
    by (simp add: toTag_def call_method_def reads_cong [OF assms(1)] structured_def split: sum.splits)
next
  case False
  with CQTag_toTag_cong [OF assms] show ?thesis
    by (simp add: toTag_def call_method_def)
qed

text \<open>
  C10. \<open>toString\<close> and \<open>toTag\<close> leave every object that was in the store as it was, so
  the base and override mappings of the receiver in particular; they assign to no field
  of the receiver. Each builds the overlaid mapping in a new object, and \<open>toTag\<close> deletes
  from that object only. Hence a second call gives the same wire text (or raises the same
  exception), and a structured form with the same type and the same data, and leaves the
  result of the first call as it was.
\<close>

theorem C10_serialisation_frame:
  "take (length h) (store_after h (toString h this)) = h
   \<and> take (length h) (store_after h (toTag h this)) = h
   \<and> (tag_data this < length h \<and> tag_modifier this < length h \<longrightarrow>
        store_after h (toString h this) ! tag_data this = h ! tag_data this
      \<and> store_after h (toString h this) ! tag_modifier this = h ! tag_modifier this
      \<and> store_after h (toTag h this) ! tag_data this = h ! tag_data this
      \<and> store_after h (toTag h this) ! tag_modifier this = h ! tag_modifier this
      \<and> outcome (toString (store_after h (toString h this)) this) = outcome (toString h this)
      \<and> structured (toTag (store_after h (toTag h this)) this) = structured (toTag h this)
      \<and> (\<forall>t h1. toTag h this = Inr (t, h1) \<longrightarrow>
            store_after h1 (toTag h1 this) ! struct_data t = h1 ! struct_data t))"
proof -
  let ?hs = "store_after h (toString h this)" and ?ht = "store_after h (toTag h this)"
  have fs: "take (length h) ?hs = h" by (rule toString_frame)
  have ft: "take (length h) ?ht = h" by (rule toTag_frame)
  have rest: "?hs ! tag_data this = h ! tag_data this
      \<and> ?hs ! tag_modifier this = h ! tag_modifier this
      \<and> ?ht ! tag_data this = h ! tag_data this
      \<and> ?ht ! tag_modifier this = h ! tag_modifier this
      \<and> outcome (toString ?hs this) = outcome (toString h this)
      \<and> structured (toTag ?ht this) = structured (toTag h this)
      \<and> (\<forall>t h1. toTag h this = Inr (t, h1) \<longrightarrow>
            store_after h1 (toTag h1 this) ! struct_data t = h1 ! struct_data t)"
    if d: "tag_data this < length h" and m: "tag_modifier this < length h"
  proof -
    have sd: "?hs ! tag_data this = h ! tag_data this" by (rule frame_nth [OF fs d])
    have sm: "?hs ! tag_modifier this = h ! tag_modifier this" by (rule frame_nth [OF fs m])
    have td: "?ht ! tag_data this = h ! tag_data this" by (rule frame_nth [OF ft d])
    have tm: "?ht ! tag_modifier this = h ! tag_modifier this" by (rule frame_nth [OF ft m])
    have twice_s: "outcome (toString ?hs this) = outcome (toString h this)"
      by (rule toString_cong [OF sd sm])
    have "tag_data this < length ?ht" using frame_length [OF ft] d by simp
    then have twice_t: "structured (toTag ?ht this) = structured (toTag h this)"
      by (rule toTag_cong [OF td tm d])
    have keep: "store_after h1 (toTag h1 this) ! struct_data t = h1 ! struct_data t"
      if r: "toTag h this = Inr (t, h1)" for t h1
    proof -
      have "struct_data t < length h1" using toTag_Inr(1,2) [OF r] by simp
      then show ?thesis by (rule frame_nth [OF toTag_frame])
    qed
    from sd sm td tm twice_s twice_t keep show ?thesis by blast
  qed
  from fs ft rest show ?thesis by blast
qed

theorem C10_serialisation_frame_witness:
  "tag_data \<lparr>tag_class = ClassCQTag, tag_type = ''t'', tag_data = 0, tag_modifier = 1,
             tag_accessors = [''a'', ''c'']\<rparr>
     < length [[(''a'', Null), (''c'', Str ''x'')], [(''d'', Undefined)]]
   \<and> tag_modifier \<lparr>tag_class = ClassCQTag, tag_type = ''t'', tag_data = 0, tag_modifier = 1,
                    tag_accessors = [''a'', ''c'']\<rparr>
     < length [[(''a'', Null), (''c'', Str ''x'')], [(''d'', Undefined)]]
   \<and> toTag [[(''a'', Null), (''c'', Str ''x'')], [(''d'', Undefined)]]
        \<lparr>tag_class = ClassCQTag, tag_type = ''t'', tag_data = 0, tag_modifier = 1,
         tag_accessors = [''a'', ''c'']\<rparr>
     = Inr (\<lparr>struct_type = Str ''t'', struct_data = 2\<rparr>,
            [[(''a'', Null), (''c'', Str ''x'')], [(''d'', Undefined)], [(''c'', Str ''x'')]])
   \<and> toTag [[(''a'', Null), (''c'', Str ''x'')], [(''d'', Undefined)], [(''c'', Str ''x'')]]
        \<lparr>tag_class = ClassCQTag, tag_type = ''t'', tag_data = 0, tag_modifier = 1,
         tag_accessors = [''a'', ''c'']\<rparr>
     = Inr (\<lparr>struct_type = Str ''t'', struct_data = 3\<rparr>,
            [[(''a'', Null), (''c'', Str ''x'')], [(''d'', Undefined)], [(''c'', Str ''x'')],
             [(''c'', Str ''x'')]])
   \<and> outcome (toString
        (store_after [[(''a'', Null), (''c'', Str ''x'')], [(''d'', Undefined)]]
           (toString [[(''a'', Null), (''c'', Str ''x'')], [(''d'', Undefined)]]
              \<lparr>tag_class = ClassCQTag, tag_type = ''t'', tag_data = 0, tag_modifier = 1,
               tag_accessors = [''a'', ''c'']\<rparr>))
        \<lparr>tag_class = ClassCQTag, tag_type = ''t'', tag_data = 0, tag_modifier = 1,
         tag_accessors = [''a'', ''c'']\<rparr>)
     = Inr ''[CQ:t,a=null,c=x]''"
  using C10_serialisation_frame
    [of "[[(''a'', Null), (''c'', Str ''x'')], [(''d'', Undefined)]]"
        "\<lparr>tag_class = ClassCQTag, tag_type = ''t'', tag_data = 0, tag_modifier = 1,
          tag_accessors = [''a'', ''c'']\<rparr>"]
  by (simp add: toString_def toTag_def CQTag_toString_eq CQTag_toTag_eq eval_tag eval_obj)

text \<open>
  C4, as the code has it. For every tag value of class \<open>CQText\<close>, the wire text is the
  raw value of its \<open>text\<close> attribute, with no wrapper. These are the values built by
  \<open>new CQText\<close> and, among the values the message parser produces, those of the tokens
  that do not match the tag pattern; for them the wire text is the token itself.
\<close>

theorem C4_text_serialisation:
  "(tag_class this = ClassCQText \<and> \<not> has_accessor this ''toString'' \<and> \<not> has_accessor this ''_data''
      \<longrightarrow> toString h this = Inr (ToString (get_prop (h ! tag_data this) ''text''), h))
   \<and> toString (snd (new_CQText h text)) (fst (new_CQText h text))
       = Inr (text, snd (new_CQText h text))
   \<and> (i < length (split_SPLIT msg) \<and> tag_class (fst (parse h msg) ! i) = ClassCQText \<longrightarrow>
        tag_type (fst (parse h msg) ! i) = ''text''
      \<and> get_prop (snd (parse h msg) ! tag_data (fst (parse h msg) ! i)) ''text''
          = Str (split_SPLIT msg ! i)
      \<and> toString (snd (parse h msg)) (fst (parse h msg) ! i)
          = Inr (split_SPLIT msg ! i, snd (parse h msg)))"
proof -
  have a: "toString h this = Inr (ToString (get_prop (h ! tag_data this) ''text''), h)"
    if "tag_class this = ClassCQText" "\<not> has_accessor this ''toString''" "\<not> has_accessor this ''_data''"
    for h this
    using that by (simp add: toString_def call_method_def CQText_toString_def read_data_def)
  have b: "toString (snd (new_CQText h text)) (fst (new_CQText h text))
        = Inr (text, snd (new_CQText h text))"
    by (simp add: new_CQText_def new_CQTag_def alloc_def fromEntries_text toString_def call_method_def
        has_accessor_def read_data_def CQText_toString_def get_prop_def nth_append)
  have c: "tag_type (fst (parse h msg) ! i) = ''text''
      \<and> get_prop (snd (parse h msg) ! tag_data (fst (parse h msg) ! i)) ''text''
          = Str (split_SPLIT msg ! i)
      \<and> toString (snd (parse h msg)) (fst (parse h msg) ! i)
          = Inr (split_SPLIT msg ! i, snd (parse h msg))"
    if i: "i < length (split_SPLIT msg)" and cls: "tag_class (fst (parse h msg) ! i) = ClassCQText"
  proof -
    from cls have "token_class (split_SPLIT msg ! i) = ClassCQText"
      by (simp only: parse_nth_data(2) [OF i])
    then have none: "CQ_TAG_REGEXP_exec (split_SPLIT msg ! i) = None"
      by (simp add: token_class_def split: if_splits)
    have d: "snd (parse h msg) ! tag_data (fst (parse h msg) ! i) = [(''text'', Str (split_SPLIT msg ! i))]"
      using none by (simp only: parse_nth_data(1) [OF i]) (simp add: token_data_def)
    have t: "tag_type (fst (parse h msg) ! i) = ''text''"
      using none by (simp only: parse_nth_data(3) [OF i]) (simp add: token_type_def)
    have acc: "tag_accessors (fst (parse h msg) ! i) = [''text'']"
      using none by (simp only: parse_nth_data(4) [OF i]) (simp add: token_data_def)
    have "toString (snd (parse h msg)) (fst (parse h msg) ! i)
          = Inr (ToString (get_prop (snd (parse h msg) ! tag_data (fst (parse h msg) ! i)) ''text''),
                 snd (parse h msg))"
      using cls acc by (intro a) (simp_all add: has_accessor_def)
    with d t show ?thesis by (simp add: get_prop_def)
  qed
  from a b c show ?thesis by blast
qed

theorem C4_text_serialisation_witness:
  "split_SPLIT ''hi[CQ:text,text=a]'' = [''hi'', ''[CQ:text,text=a]'']
   \<and> 0 < length (split_SPLIT ''hi[CQ:text,text=a]'')
   \<and> tag_class (fst (parse [] ''hi[CQ:text,text=a]'') ! 0) = ClassCQText
   \<and> outcome (toString (snd (parse [] ''hi[CQ:text,text=a]'')) (fst (parse [] ''hi[CQ:text,text=a]'') ! 0))
       = Inr ''hi''"
  using C4_text_serialisation [where i = 0 and msg = "''hi[CQ:text,text=a]''" and h = "[]"]
  by (simp add: eval_parse outcome_def)

text \<open>
  A tag value of type \<open>text\<close> need not be of class \<open>CQText\<close>: the token
  \<open>[CQ:text,text=a]\<close> matches the tag pattern, so the parser builds a \<open>CQTag\<close> of type
  \<open>text\<close> for it, and its wire text is \<open>[CQ:text,text=a]\<close>, not \<open>a\<close>.
\<close>

theorem C4_counterexample:
  "tag_type (fst (parse [] ''[CQ:text,text=a]'') ! 0) = ''text''
   \<and> get_prop (snd (parse [] ''[CQ:text,text=a]'') ! tag_data (fst (parse [] ''[CQ:text,text=a]'') ! 0))
        ''text'' = Str ''a''
   \<and> outcome (toString (snd (parse [] ''[CQ:text,text=a]'')) (fst (parse [] ''[CQ:text,text=a]'') ! 0))
       = Inr ''[CQ:text,text=a]''"
  by (simp add: toString_def CQTag_toString_eq eval_parse eval_tag eval_obj)

end
